theory Spec2Isabelle
  imports Main
begin

section \<open>Data model\<close>

text \<open>
  The three scripts (\<open>icloud_downloader.py\<close>, \<open>run.py\<close>, \<open>run_year_month.py\<close>) share one
  engine: a loop over the remote listing, with a retry loop around the processing of each
  item. The embedding follows \<open>run.py\<close> and \<open>run_year_month.py\<close>, which differ only in the
  destination path of an item; that path is the parameter \<open>dest\<close> below.

  Bytes and text are \<open>string\<close>s (a \<open>char\<close> is one byte, or one code point below 256).
  Instants are integers, in microseconds since the epoch (Python's \<open>timestamp()\<close> returns the
  same quantity as a float of seconds).
\<close>

type_synonym bytes = string

text \<open>
  A \<open>datetime\<close>: the wall-clock reading, and \<open>tzinfo\<close>, which is \<open>None\<close> for a naive value
  and \<open>Some off\<close> for an aware one whose zone is \<open>off\<close> microseconds ahead of UTC.
\<close>

record datetime =
  wall :: int
  tzinfo :: "int option"

text \<open>
  A local file: its bytes and its times. A time is \<open>None\<close> while it is whatever the
  operating system assigned when the file was written, and \<open>Some t\<close> once the engine set it.
\<close>

record local_file =
  content :: bytes
  atime :: "int option"
  mtime :: "int option"
  birthtime :: "int option"

text \<open>
  A remote item, with the attributes the scripts read: \<open>photo.filename\<close>, \<open>photo.size\<close>,
  \<open>photo.added_date\<close>, and \<open>stream\<close>, the chunks that
  \<open>photo.download().iter_content(chunk_size)\<close> yields when nothing fails.
\<close>

record photo =
  filename :: string
  size_bytes :: nat
  added_date :: datetime
  stream :: "bytes list"

datatype exn =
    OSError
  | FileNotFoundError
  | FileExistsError
  | ConnectionError
  | UnknownTimeZoneError
  | CalledProcessError
  | KeyboardInterrupt

text \<open>\<open>except Exception\<close> catches every exception of the model but \<open>KeyboardInterrupt\<close>.\<close>

definition is_Exception :: "exn \<Rightarrow> bool" where
  "is_Exception e = (e \<noteq> KeyboardInterrupt)"

text \<open>The calls of \<open>logging.info\<close> and \<open>logging.error\<close>, one constructor for each message.\<close>

datatype log_entry =
    Found nat
  | Up_to_date string
  | Differs string
  | Rate_limit_reached nat
  | Processing_error string exn
  | Retrying nat
  | Max_retries string
  | Timestamp_error string exn
  | Complete

text \<open>
  The state the engine works on: the files by path, the content of \<open>TRACK_FILE\<close>
  (\<open>None\<close> when the file does not exist), the counter \<open>requests_made\<close>, the arguments of
  the calls of \<open>time.sleep\<close> and the log, both in order.
\<close>

record state =
  files :: "string \<rightharpoonup> local_file"
  track :: "string option"
  requests_made :: nat
  slept :: "nat list"
  logged :: "log_entry list"

text \<open>The module constants, with the values of the source as \<open>defaults\<close>.\<close>

record settings =
  RATE_LIMIT :: nat
  TIME_WINDOW :: nat
  MAX_RETRIES :: nat
  INITIAL_WAIT :: nat
  MAX_WAIT :: nat

definition defaults :: settings where
  "defaults = \<lparr>RATE_LIMIT = 100, TIME_WINDOW = 0, MAX_RETRIES = 5, INITIAL_WAIT = 1,
     MAX_WAIT = 60\<rparr>"

text \<open>
  What the scripts take from libraries and from the machine: \<open>hashlib.md5\<close> (the hex digest
  of a byte string), \<open>platform.system()\<close>, whether the \<open>SetFile\<close> program succeeds (macOS),
  whether \<open>win32_setctime\<close> is there and succeeds (Windows), and the time zone database of
  \<open>pytz\<close> (a zone maps an instant to its offset from UTC).
\<close>

datatype platform = Darwin | Windows | Linux

record host =
  md5 :: "bytes \<Rightarrow> string"
  system :: platform
  SetFile_ok :: bool
  setctime_ok :: bool
  zones :: "string \<Rightarrow> (int \<Rightarrow> int) option"

text \<open>
  What happens to one call of \<open>download_file_with_progress\<close>: nothing, \<open>open\<close> raises before
  the file is created, the transfer raises after \<open>n\<close> chunks, or the user interrupts after
  \<open>n\<close> chunks.
\<close>

datatype fault = No_fault | Open_fails | Stream_fails nat | Interrupt nat

section \<open>Files\<close>

definition log :: "log_entry \<Rightarrow> state \<Rightarrow> state" where
  "log e st = st\<lparr>logged := logged st @ [e]\<rparr>"

definition sleep :: "nat \<Rightarrow> state \<Rightarrow> state" where
  "sleep n st = st\<lparr>slept := slept st @ [n]\<rparr>"

definition os_path_exists :: "string \<Rightarrow> state \<Rightarrow> bool" where
  "os_path_exists p st = (files st p \<noteq> None)"

definition os_remove :: "string \<Rightarrow> state \<Rightarrow> exn + state" where
  "os_remove p st =
     (if files st p = None then Inl FileNotFoundError
      else Inr (st\<lparr>files := (files st)(p := None)\<rparr>))"

text \<open>
  \<open>os.rename\<close> replaces an existing destination on POSIX and raises \<open>FileExistsError\<close> on
  Windows.
\<close>

definition os_rename :: "host \<Rightarrow> string \<Rightarrow> string \<Rightarrow> state \<Rightarrow> exn + state" where
  "os_rename h src dst st =
     (case files st src of
        None \<Rightarrow> Inl FileNotFoundError
      | Some f \<Rightarrow>
          if system h = Windows \<and> files st dst \<noteq> None then Inl FileExistsError
          else Inr (st\<lparr>files := ((files st)(src := None))(dst \<mapsto> f)\<rparr>))"

definition os_utime :: "string \<Rightarrow> int \<times> int \<Rightarrow> state \<Rightarrow> exn + state" where
  "os_utime p stamps st =
     (case files st p of
        None \<Rightarrow> Inl FileNotFoundError
      | Some f \<Rightarrow>
          Inr (st\<lparr>files := (files st)(p \<mapsto> f\<lparr>atime := Some (fst stamps),
            mtime := Some (snd stamps)\<rparr>)\<rparr>))"

text \<open>\<open>open(file_path, 'wb')\<close> followed by the writes: a new file, or the old one truncated.\<close>

definition written :: "local_file option \<Rightarrow> bytes \<Rightarrow> local_file" where
  "written old w =
     (case old of
        None \<Rightarrow> \<lparr>content = w, atime = None, mtime = None, birthtime = None\<rparr>
      | Some f \<Rightarrow> f\<lparr>content := w, mtime := None\<rparr>)"

definition os_path_join :: "string \<Rightarrow> string \<Rightarrow> string" where
  "os_path_join a b =
     (if b \<noteq> [] \<and> hd b = CHR ''/'' then b
      else if a = [] \<or> last a = CHR ''/'' then a @ b
      else a @ ''/'' @ b)"

section \<open>Hashing and download\<close>

text \<open>A \<open>hashlib\<close> hasher holds the bytes it was fed; the digest is that of their concatenation.\<close>

definition hasher_update :: "bytes \<Rightarrow> bytes \<Rightarrow> bytes" where
  "hasher_update hasher chunk = hasher @ chunk"

definition chunk_size_default :: nat where
  "chunk_size_default = 1024 * 1024"

text \<open>\<open>while chunk := file.read(chunk_size)\<close>: the chunks read until the first empty one.\<close>

function read_chunks :: "nat \<Rightarrow> bytes \<Rightarrow> bytes list" where
  "read_chunks chunk_size rest =
     (if take chunk_size rest \<noteq> []
      then take chunk_size rest # read_chunks chunk_size (drop chunk_size rest)
      else [])"
  by pat_completeness auto
termination
  by (relation "measure (\<lambda>(n, rest). length rest)") auto

definition calculate_file_hash :: "host \<Rightarrow> string \<Rightarrow> nat \<Rightarrow> state \<Rightarrow> exn + string" where
  "calculate_file_hash h file_path chunk_size st =
     (case files st file_path of
        None \<Rightarrow> Inl FileNotFoundError
      | Some f \<Rightarrow> Inr (md5 h (foldl hasher_update [] (read_chunks chunk_size (content f)))))"

text \<open>
  The loop of \<open>download_file_with_progress\<close> over the chunks that arrive: the bytes written
  and the hasher.
\<close>

definition download_loop :: "bytes list \<Rightarrow> bytes \<times> bytes" where
  "download_loop chunks =
     foldl (\<lambda>(w, hasher) chunk.
              if chunk \<noteq> [] then (w @ chunk, hasher_update hasher chunk) else (w, hasher))
       ([], []) chunks"

definition download_file_with_progress ::
    "host \<Rightarrow> photo \<Rightarrow> string \<Rightarrow> fault \<Rightarrow> state \<Rightarrow> (exn + string) \<times> state" where
  "download_file_with_progress h photo file_path fault st =
     (case fault of
        Open_fails \<Rightarrow> (Inl OSError, st)
      | No_fault \<Rightarrow>
          (let (w, hasher) = download_loop (stream photo)
           in (Inr (md5 h hasher),
               st\<lparr>files := (files st)(file_path \<mapsto> written (files st file_path) w)\<rparr>))
      | Stream_fails n \<Rightarrow>
          (let (w, hasher) = download_loop (take n (stream photo))
           in (Inl ConnectionError,
               st\<lparr>files := (files st)(file_path \<mapsto> written (files st file_path) w)\<rparr>))
      | Interrupt n \<Rightarrow>
          (let (w, hasher) = download_loop (take n (stream photo))
           in (Inl KeyboardInterrupt,
               st\<lparr>files := (files st)(file_path \<mapsto> written (files st file_path) w)\<rparr>)))"

section \<open>Timestamps\<close>

definition localize_UTC :: "datetime \<Rightarrow> datetime" where
  "localize_UTC ts = ts\<lparr>tzinfo := Some 0\<rparr>"

definition pytz_timezone :: "host \<Rightarrow> string \<Rightarrow> exn + (int \<Rightarrow> int)" where
  "pytz_timezone h name =
     (if name = ''UTC'' then Inr (\<lambda>_. 0)
      else case zones h name of None \<Rightarrow> Inl UnknownTimeZoneError | Some z \<Rightarrow> Inr z)"

text \<open>
  \<open>timestamp()\<close> of an aware value is its wall-clock reading less its offset. (Of a naive
  value Python takes the system's zone; the scripts modelled here call it on aware values
  only.)
\<close>

definition timestamp :: "datetime \<Rightarrow> int" where
  "timestamp ts = wall ts - (case tzinfo ts of None \<Rightarrow> 0 | Some off \<Rightarrow> off)"

definition astimezone :: "datetime \<Rightarrow> (int \<Rightarrow> int) \<Rightarrow> datetime" where
  "astimezone ts tz = (let u = timestamp ts in \<lparr>wall = u + tz u, tzinfo = Some (tz u)\<rparr>)"

text \<open>
  The body of the \<open>try\<close> of \<open>reset_file_timestamp\<close>. On macOS \<open>SetFile\<close> gets the date to the
  second; a failure of the program raises (\<open>check=True\<close>), and so does a failure of
  \<open>setctime\<close> on Windows, both after \<open>os.utime\<close> was applied.
\<close>

definition reset_file_timestamp_try ::
    "host \<Rightarrow> string \<Rightarrow> datetime \<Rightarrow> string \<Rightarrow> state \<Rightarrow> exn \<times> state + state" where
  "reset_file_timestamp_try h file_path ts timezone st =
     (let ts1 = (if tzinfo ts = None then localize_UTC ts else ts)
      in case pytz_timezone h timezone of
           Inl e \<Rightarrow> Inl (e, st)
         | Inr local_tz \<Rightarrow>
             (let local_timestamp = astimezone ts1 local_tz;
                  mod_time = timestamp local_timestamp
              in case os_utime file_path (mod_time, mod_time) st of
                   Inl e \<Rightarrow> Inl (e, st)
                 | Inr st1 \<Rightarrow>
                     if system h = Darwin then
                       (if SetFile_ok h
                        then Inr (st1\<lparr>files := (files st1)(file_path :=
                               map_option (\<lambda>f. f\<lparr>birthtime :=
                                 Some (mod_time - mod_time mod 1000000)\<rparr>)
                                 (files st1 file_path))\<rparr>)
                        else Inl (CalledProcessError, st1))
                     else if system h = Windows then
                       (if setctime_ok h
                        then Inr (st1\<lparr>files := (files st1)(file_path :=
                               map_option (\<lambda>f. f\<lparr>birthtime := Some mod_time\<rparr>)
                                 (files st1 file_path))\<rparr>)
                        else Inl (OSError, st1))
                     else Inr st1))"

definition reset_file_timestamp :: "host \<Rightarrow> string \<Rightarrow> datetime \<Rightarrow> string \<Rightarrow> state \<Rightarrow> state" where
  "reset_file_timestamp h file_path ts timezone st =
     (case reset_file_timestamp_try h file_path ts timezone st of
        Inr st1 \<Rightarrow> st1
      | Inl (e, st1) \<Rightarrow> log (Timestamp_error file_path e) st1)"

section \<open>The resume cursor and the backoff\<close>

definition exponential_backoff :: "settings \<Rightarrow> nat \<Rightarrow> nat" where
  "exponential_backoff cfg attempt = min (INITIAL_WAIT cfg * 2 ^ attempt) (MAX_WAIT cfg)"

text \<open>\<open>str.isspace\<close> on the code points below 256, and \<open>str.strip()\<close>.\<close>

definition isspace :: "char \<Rightarrow> bool" where
  "isspace c = (of_char c \<in> {9, 10, 11, 12, 13, 28, 29, 30, 31, 32, 133, 160 :: nat})"

definition strip :: "string \<Rightarrow> string" where
  "strip s = rev (dropWhile isspace (rev (dropWhile isspace s)))"

definition load_last_downloaded :: "state \<Rightarrow> string option" where
  "load_last_downloaded st = map_option strip (track st)"

definition save_last_downloaded :: "string \<Rightarrow> state \<Rightarrow> state" where
  "save_last_downloaded photo_name st = st\<lparr>track := Some photo_name\<rparr>"

section \<open>The sync engine\<close>

text \<open>
  The end of the \<open>try\<close> body, reached after a fresh download or a replacement: timestamp,
  cursor, counter, rate limit, \<open>break\<close>.
\<close>

definition after_download :: "host \<Rightarrow> settings \<Rightarrow> photo \<Rightarrow> string \<Rightarrow> state \<Rightarrow> state" where
  "after_download h cfg photo photo_path st =
     (let st1 = reset_file_timestamp h photo_path (added_date photo) ''UTC'' st;
          st2 = save_last_downloaded (filename photo) st1;
          st3 = st2\<lparr>requests_made := requests_made st2 + 1\<rparr>
      in if requests_made st3 \<ge> RATE_LIMIT cfg then
           (let st4 = (if TIME_WINDOW cfg > 0
                       then sleep (TIME_WINDOW cfg) (log (Rate_limit_reached (TIME_WINDOW cfg)) st3)
                       else st3)
            in st4\<lparr>requests_made := 0\<rparr>)
         else st3)"

text \<open>
  One pass through the \<open>try\<close> body: \<open>Inr\<close> is a \<open>break\<close>, \<open>Inl\<close> an exception raised, with
  the state it leaves.
\<close>

definition attempt_body ::
    "host \<Rightarrow> settings \<Rightarrow> (photo \<Rightarrow> string) \<Rightarrow> photo \<Rightarrow> fault \<Rightarrow> state \<Rightarrow> exn \<times> state + state" where
  "attempt_body h cfg dest photo fault st =
     (let photo_name = filename photo;
          photo_path = dest photo
      in if os_path_exists photo_path st then
           (case calculate_file_hash h photo_path chunk_size_default st of
              Inl e \<Rightarrow> Inl (e, st)
            | Inr local_file_hash \<Rightarrow>
                (let temp_file_path = photo_path @ ''.temp''
                 in case download_file_with_progress h photo temp_file_path fault st of
                      (Inl e, st1) \<Rightarrow> Inl (e, st1)
                    | (Inr icloud_file_hash, st1) \<Rightarrow>
                        if local_file_hash = icloud_file_hash then
                          (let st2 = log (Up_to_date photo_name) st1;
                               st3 = reset_file_timestamp h photo_path (added_date photo)
                                       ''UTC'' st2
                           in case os_remove temp_file_path st3 of
                                Inl e \<Rightarrow> Inl (e, st3)
                              | Inr st4 \<Rightarrow> Inr st4)
                        else
                          (let st2 = log (Differs photo_name) st1
                           in case os_rename h temp_file_path photo_path st2 of
                                Inl e \<Rightarrow> Inl (e, st2)
                              | Inr st3 \<Rightarrow> Inr (after_download h cfg photo photo_path st3))))
         else
           (case download_file_with_progress h photo photo_path fault st of
              (Inl e, st1) \<Rightarrow> Inl (e, st1)
            | (Inr icloud_file_hash, st1) \<Rightarrow> Inr (after_download h cfg photo photo_path st1)))"

text \<open>
  \<open>while attempt < MAX_RETRIES\<close>: the pass numbered \<open>attempt\<close> meets the fault
  \<open>faults attempt\<close>. An interrupt is not caught and leaves the loop.
\<close>

function retry_loop ::
    "host \<Rightarrow> settings \<Rightarrow> (photo \<Rightarrow> string) \<Rightarrow> photo \<Rightarrow> (nat \<Rightarrow> fault) \<Rightarrow> nat \<Rightarrow> state
      \<Rightarrow> exn \<times> state + state" where
  "retry_loop h cfg dest photo faults attempt st =
     (if attempt < MAX_RETRIES cfg then
        (case attempt_body h cfg dest photo (faults attempt) st of
           Inr st1 \<Rightarrow> Inr st1
         | Inl (e, st1) \<Rightarrow>
             if \<not> is_Exception e then Inl (e, st1)
             else
               (let st2 = log (Processing_error (filename photo) e) st1
                in if attempt + 1 < MAX_RETRIES cfg then
                     retry_loop h cfg dest photo faults (attempt + 1)
                       (sleep (exponential_backoff cfg (attempt + 1))
                         (log (Retrying (exponential_backoff cfg (attempt + 1))) st2))
                   else Inr (log (Max_retries (filename photo)) st2)))
      else Inr st)"
  by pat_completeness auto
termination
  by (relation "measure (\<lambda>(h, cfg, dest, photo, faults, attempt, st). MAX_RETRIES cfg - attempt)")
    auto

text \<open>
  \<open>for photo in photos\<close>: each item of the listing comes with the faults its attempts meet
  in this run.
\<close>

fun sync_loop ::
    "host \<Rightarrow> settings \<Rightarrow> (photo \<Rightarrow> string) \<Rightarrow> bool \<Rightarrow> string option
      \<Rightarrow> (photo \<times> (nat \<Rightarrow> fault)) list \<Rightarrow> state \<Rightarrow> exn \<times> state + state" where
  "sync_loop h cfg dest skip last_downloaded [] st = Inr st"
| "sync_loop h cfg dest skip last_downloaded ((photo, faults) # photos) st =
     (if skip then
        sync_loop h cfg dest (Some (filename photo) \<noteq> last_downloaded) last_downloaded photos st
      else
        (case retry_loop h cfg dest photo faults 0 st of
           Inl x \<Rightarrow> Inl x
         | Inr st1 \<Rightarrow> sync_loop h cfg dest False last_downloaded photos st1))"

text \<open>The run, from the listing on.\<close>

definition sync ::
    "host \<Rightarrow> settings \<Rightarrow> (photo \<Rightarrow> string) \<Rightarrow> (photo \<times> (nat \<Rightarrow> fault)) list \<Rightarrow> state
      \<Rightarrow> exn \<times> state + state" where
  "sync h cfg dest photos st =
     (let st1 = log (Found (length photos)) st;
          last_downloaded = load_last_downloaded st1;
          skip = (last_downloaded \<noteq> None)
      in case sync_loop h cfg dest skip last_downloaded photos (st1\<lparr>requests_made := 0\<rparr>) of
           Inl x \<Rightarrow> Inl x
         | Inr st2 \<Rightarrow> Inr (log Complete st2))"

text \<open>The destination paths of the two scripts.\<close>

definition download_directory :: string where
  "download_directory = ''downloaded_files''"

definition run_dest :: "photo \<Rightarrow> string" where
  "run_dest photo = os_path_join download_directory (filename photo)"

definition BASE_DOWNLOAD_DIRECTORY :: string where
  "BASE_DOWNLOAD_DIRECTORY = ''downloaded_files''"

text \<open>
  \<open>run_year_month.py\<close> takes the year and the month from \<open>strftime\<close> of the declared
  timestamp; \<open>strftime\<close> is a parameter here. (The directories themselves, which
  \<open>os.makedirs\<close> creates, are not part of the state.)
\<close>

definition create_directory_for_photo :: "(string \<Rightarrow> datetime \<Rightarrow> string) \<Rightarrow> photo \<Rightarrow> string" where
  "create_directory_for_photo strftime photo =
     os_path_join (os_path_join BASE_DOWNLOAD_DIRECTORY (strftime ''%Y'' (added_date photo)))
       (strftime ''%m'' (added_date photo))"

definition run_year_month_dest :: "(string \<Rightarrow> datetime \<Rightarrow> string) \<Rightarrow> photo \<Rightarrow> string" where
  "run_year_month_dest strftime photo =
     os_path_join (create_directory_for_photo strftime photo) (filename photo)"

text \<open>The state a run ends in, interrupted or not.\<close>

fun final :: "exn \<times> state + state \<Rightarrow> state" where
  "final (Inl (e, st)) = st"
| "final (Inr st) = st"

section \<open>Notions used in the statements\<close>

text \<open>The exception that a fault raises in \<open>download_file_with_progress\<close>.\<close>

definition fault_exn :: "fault \<Rightarrow> exn" where
  "fault_exn f =
     (case f of
        Open_fails \<Rightarrow> OSError
      | Stream_fails n \<Rightarrow> ConnectionError
      | Interrupt n \<Rightarrow> KeyboardInterrupt
      | No_fault \<Rightarrow> OSError)"


text \<open>The instant that a declared timestamp denotes, a naive one read as UTC.\<close>

definition instant :: "datetime \<Rightarrow> int" where
  "instant ts = (case tzinfo ts of None \<Rightarrow> wall ts | Some off \<Rightarrow> wall ts - off)"

text \<open>
  What the rate limit does when an item is written, the counter being \<open>n\<close> before: the new
  value of the counter, and the sleep.
\<close>

definition bump :: "settings \<Rightarrow> nat \<Rightarrow> nat" where
  "bump cfg n = (if RATE_LIMIT cfg \<le> n + 1 then 0 else n + 1)"

definition pause :: "settings \<Rightarrow> nat \<Rightarrow> nat list" where
  "pause cfg n =
     (if RATE_LIMIT cfg \<le> n + 1 \<and> 0 < TIME_WINDOW cfg then [TIME_WINDOW cfg] else [])"

text \<open>Processing the items of a listing in order, each from attempt 0, none skipped.\<close>

fun process_all ::
    "host \<Rightarrow> settings \<Rightarrow> (photo \<Rightarrow> string) \<Rightarrow> (photo \<times> (nat \<Rightarrow> fault)) list \<Rightarrow> state
      \<Rightarrow> exn \<times> state + state" where
  "process_all h cfg dest [] st = Inr st"
| "process_all h cfg dest ((photo, faults) # photos) st =
     (case retry_loop h cfg dest photo faults 0 st of
        Inl x \<Rightarrow> Inl x
      | Inr st1 \<Rightarrow> process_all h cfg dest photos st1)"


section \<open>Example values\<close>

text \<open>
  Concrete hosts, items and states, for the instances below. The example hosts take the
  bytes themselves as their digest (a digest without collisions).
\<close>

definition utc_host :: host where
  "utc_host = \<lparr>md5 = id, system = Linux, SetFile_ok = True, setctime_ok = True, zones = Map.empty\<rparr>"

definition empty_state :: state where
  "empty_state = \<lparr>files = Map.empty, track = None, requests_made = 0, slept = [], logged = []\<rparr>"

definition old_file :: local_file where
  "old_file = \<lparr>content = ''old'', atime = None, mtime = None, birthtime = None\<rparr>"

definition naive_noon :: datetime where
  "naive_noon = \<lparr>wall = 43200000000, tzinfo = None\<rparr>"

definition never_fails :: "nat \<Rightarrow> fault" where
  "never_fails attempt = No_fault"

definition always_fails :: "nat \<Rightarrow> fault" where
  "always_fails attempt = Stream_fails 1"

definition fails_six_times :: "nat \<Rightarrow> fault" where
  "fails_six_times attempt = (if attempt < 6 then Stream_fails 1 else No_fault)"

definition photo_a :: photo where
  "photo_a = \<lparr>filename = ''a.jpg'', size_bytes = 3,
     added_date = \<lparr>wall = 43200000000, tzinfo = None\<rparr>, stream = [''ab'', ''c'']\<rparr>"

definition file_abc :: local_file where
  "file_abc = \<lparr>content = ''abc'', atime = None, mtime = None, birthtime = None\<rparr>"

definition state_a :: state where
  "state_a = empty_state\<lparr>files := [''downloaded_files/a.jpg'' \<mapsto> file_abc]\<rparr>"

definition windows_host :: host where
  "windows_host = \<lparr>md5 = id, system = Windows, SetFile_ok = True, setctime_ok = True, zones = Map.empty\<rparr>"

definition state_old :: state where
  "state_old = empty_state\<lparr>files := [''downloaded_files/a.jpg'' \<mapsto> old_file]\<rparr>"

definition interrupted :: "nat \<Rightarrow> fault" where
  "interrupted attempt = Interrupt 1"

definition photo_b :: photo where
  "photo_b = \<lparr>filename = ''b.jpg'', size_bytes = 3,
     added_date = \<lparr>wall = 86400000000, tzinfo = Some 3600000000\<rparr>, stream = [''xyz'']\<rparr>"

definition photo_sp :: photo where
  "photo_sp = \<lparr>filename = ''a.jpg '', size_bytes = 3,
     added_date = \<lparr>wall = 43200000000, tzinfo = None\<rparr>, stream = [''ab'', ''c'']\<rparr>"

definition state_a_done :: state where
  "state_a_done = state_a\<lparr>track := Some ''a.jpg''\<rparr>"

definition state_sp :: state where
  "state_sp = empty_state\<lparr>track := Some ''a.jpg ''\<rparr>"

definition listing_ab :: "(photo \<times> (nat \<Rightarrow> fault)) list" where
  "listing_ab = [(photo_a, never_fails), (photo_b, never_fails)]"

definition listing_sp :: "(photo \<times> (nat \<Rightarrow> fault)) list" where
  "listing_sp = [(photo_sp, never_fails), (photo_b, never_fails)]"

definition listing_fail :: "(photo \<times> (nat \<Rightarrow> fault)) list" where
  "listing_fail = [(photo_a, always_fails), (photo_b, never_fails)]"



definition state_b_done :: state where
  "state_b_done = empty_state\<lparr>track := Some ''b.jpg''\<rparr>"

text \<open>An item matches when its destination holds a file with the digest of its content.\<close>

definition matches :: "host \<Rightarrow> (photo \<Rightarrow> string) \<Rightarrow> state \<Rightarrow> photo \<Rightarrow> bool" where
  "matches h dest st photo =
     (case files st (dest photo) of
        None \<Rightarrow> False
      | Some f \<Rightarrow> md5 h (content f) = md5 h (concat (stream photo)))"

text \<open>The bytes of the file at a path.\<close>

definition contents :: "state \<Rightarrow> string \<Rightarrow> bytes option" where
  "contents st q = map_option content (files st q)"


definition file_xyz :: local_file where
  "file_xyz = \<lparr>content = ''xyz'', atime = None, mtime = None, birthtime = None\<rparr>"

definition state_ab :: state where
  "state_ab = empty_state\<lparr>files :=
     [''downloaded_files/a.jpg'' \<mapsto> file_abc, ''downloaded_files/b.jpg'' \<mapsto> file_xyz]\<rparr>"

definition photo_bt :: photo where
  "photo_bt = \<lparr>filename = ''b.jpg.temp'', size_bytes = 3,
     added_date = \<lparr>wall = 43200000000, tzinfo = None\<rparr>, stream = [''abc'']\<rparr>"

definition listing_clash :: "(photo \<times> (nat \<Rightarrow> fault)) list" where
  "listing_clash = [(photo_bt, never_fails), (photo_b, never_fails)]"

definition state_clash :: state where
  "state_clash = empty_state\<lparr>files :=
     [''downloaded_files/b.jpg.temp'' \<mapsto> file_abc, ''downloaded_files/b.jpg'' \<mapsto> file_xyz]\<rparr>"



text \<open>The pauses of the rate limit over \<open>n\<close> items written, the counter starting at 0.\<close>

definition pauses :: "settings \<Rightarrow> nat \<Rightarrow> nat list" where
  "pauses cfg n =
     (if 0 < TIME_WINDOW cfg then replicate (n div RATE_LIMIT cfg) (TIME_WINDOW cfg) else [])"

definition throttled2 :: settings where
  "throttled2 = defaults\<lparr>RATE_LIMIT := 2, TIME_WINDOW := 30\<rparr>"

section \<open>Basic facts\<close>

declare read_chunks.simps [simp del]
declare retry_loop.simps [simp del]

lemma foldl_hasher_update: "foldl hasher_update acc cs = acc @ concat cs"
  by (induction cs arbitrary: acc) (simp_all add: hasher_update_def)

lemma concat_read_chunks: "0 < n \<Longrightarrow> concat (read_chunks n xs) = xs"
proof (induction n xs rule: read_chunks.induct)
  case (1 n xs)
  show ?case
  proof (cases "take n xs = []")
    case True
    with "1.prems" have "xs = []" by simp
    then show ?thesis by (subst read_chunks.simps) simp
  next
    case False
    with 1 have "concat (read_chunks n (drop n xs)) = drop n xs" by blast
    with False show ?thesis by (subst read_chunks.simps) simp
  qed
qed

text \<open>Reading a file in chunks of one mebibyte hashes its whole content.\<close>

lemma calculate_file_hash_eq:
  "calculate_file_hash h p chunk_size_default st =
     (case files st p of None \<Rightarrow> Inl FileNotFoundError | Some f \<Rightarrow> Inr (md5 h (content f)))"
proof -
  have "0 < chunk_size_default" by (simp add: chunk_size_default_def)
  then show ?thesis
    by (simp add: calculate_file_hash_def foldl_hasher_update concat_read_chunks
      split: option.splits)
qed

lemma download_loop_gen:
  "foldl (\<lambda>(w, hasher) chunk.
              if chunk \<noteq> [] then (w @ chunk, hasher_update hasher chunk) else (w, hasher))
       (a, b) chunks = (a @ concat chunks, b @ concat chunks)"
  by (induction chunks arbitrary: a b) (simp_all add: hasher_update_def)

text \<open>The download writes the chunks it received and hashes the same bytes.\<close>

lemma download_loop_eq: "download_loop chunks = (concat chunks, concat chunks)"
  by (simp add: download_loop_def download_loop_gen)

lemma timestamp_astimezone [simp]: "timestamp (astimezone ts z) = timestamp ts"
  by (simp add: timestamp_def astimezone_def Let_def)

text \<open>
  When the file exists and the zone is known, the \<open>try\<close> of \<open>reset_file_timestamp\<close> sets
  both times, and can only raise afterwards (when the creation time cannot be set).
\<close>

lemma reset_file_timestamp_try_files:
  assumes "files st p = Some f" and "pytz_timezone h tz = Inr z"
  shows "\<exists>st1 f1. (reset_file_timestamp_try h p ts tz st = Inr st1
            \<or> (\<exists>e. reset_file_timestamp_try h p ts tz st = Inl (e, st1)))
     \<and> files st1 = (files st)(p \<mapsto> f1)
     \<and> content f1 = content f
     \<and> atime f1 = Some (timestamp (if tzinfo ts = None then localize_UTC ts else ts))
     \<and> mtime f1 = Some (timestamp (if tzinfo ts = None then localize_UTC ts else ts))
     \<and> track st1 = track st \<and> requests_made st1 = requests_made st
     \<and> slept st1 = slept st \<and> logged st1 = logged st"
  using assms
  by (cases "system h"; cases "SetFile_ok h"; cases "setctime_ok h")
     (auto simp add: reset_file_timestamp_try_def os_utime_def Let_def)


lemma temp_neq [simp]: "p @ ''.temp'' \<noteq> p" "p \<noteq> p @ ''.temp''"
  by (induction p) auto

lemma pytz_UTC [simp]: "pytz_timezone h ''UTC'' = Inr (\<lambda>_. 0)"
  by (simp add: pytz_timezone_def)

lemma timestamp_instant:
  "timestamp (if tzinfo ts = None then localize_UTC ts else ts) = instant ts"
  by (simp add: timestamp_def localize_UTC_def instant_def split: option.splits)

lemma download_No_fault:
  "download_file_with_progress h photo p No_fault st =
     (Inr (md5 h (concat (stream photo))),
      st\<lparr>files := (files st)(p \<mapsto> written (files st p) (concat (stream photo)))\<rparr>)"
  by (simp add: download_file_with_progress_def download_loop_eq)

lemma download_fault:
  assumes "fault \<noteq> No_fault"
  shows "\<exists>st'. download_file_with_progress h photo p fault st = (Inl (fault_exn fault), st')
     \<and> track st' = track st \<and> requests_made st' = requests_made st
     \<and> slept st' = slept st \<and> logged st' = logged st
     \<and> (\<forall>q. q \<noteq> p \<longrightarrow> files st' q = files st q)"
  using assms
  by (cases fault) (simp_all add: download_file_with_progress_def download_loop_eq fault_exn_def)

text \<open>The state that \<open>reset_file_timestamp\<close> leaves, for a file that exists.\<close>

lemma reset_file_timestamp_UTC:
  assumes "files st p = Some f"
  shows "\<exists>f1. files (reset_file_timestamp h p ts ''UTC'' st) = (files st)(p \<mapsto> f1)
     \<and> content f1 = content f \<and> atime f1 = Some (instant ts) \<and> mtime f1 = Some (instant ts)
     \<and> track (reset_file_timestamp h p ts ''UTC'' st) = track st
     \<and> requests_made (reset_file_timestamp h p ts ''UTC'' st) = requests_made st
     \<and> slept (reset_file_timestamp h p ts ''UTC'' st) = slept st"
  using reset_file_timestamp_try_files [OF assms pytz_UTC, of h ts]
  by (auto simp add: reset_file_timestamp_def log_def timestamp_instant)

lemma after_download_eq:
  assumes "files st p = Some f"
  shows "\<exists>f1. files (after_download h cfg photo p st) = (files st)(p \<mapsto> f1)
     \<and> content f1 = content f
     \<and> atime f1 = Some (instant (added_date photo))
     \<and> mtime f1 = Some (instant (added_date photo))
     \<and> track (after_download h cfg photo p st) = Some (filename photo)
     \<and> requests_made (after_download h cfg photo p st) = bump cfg (requests_made st)
     \<and> slept (after_download h cfg photo p st) = slept st @ pause cfg (requests_made st)"
  using reset_file_timestamp_UTC [OF assms, of h "added_date photo"]
  by (auto simp add: after_download_def Let_def save_last_downloaded_def sleep_def log_def
      bump_def pause_def)

lemma pass_up_to_date:
  assumes "files st (dest photo) = Some f"
    and "md5 h (content f) = md5 h (concat (stream photo))"
  shows "\<exists>st' f1. attempt_body h cfg dest photo No_fault st = Inr st'
     \<and> files st' = (files st)(dest photo \<mapsto> f1, dest photo @ ''.temp'' := None)
     \<and> content f1 = content f
     \<and> atime f1 = Some (instant (added_date photo))
     \<and> mtime f1 = Some (instant (added_date photo))
     \<and> track st' = track st \<and> requests_made st' = requests_made st \<and> slept st' = slept st"
proof -
  let ?P = "dest photo" and ?T = "dest photo @ ''.temp''"
  let ?st1 = "st\<lparr>files := (files st)(?T \<mapsto> written (files st ?T) (concat (stream photo)))\<rparr>"
  let ?st2 = "log (Up_to_date (filename photo)) ?st1"
  have ex: "files ?st2 ?P = Some f" using assms(1) by (simp add: log_def)
  from reset_file_timestamp_UTC [OF ex, of h "added_date photo"] obtain f1 where
    f1: "files (reset_file_timestamp h ?P (added_date photo) ''UTC'' ?st2) = (files ?st2)(?P \<mapsto> f1)"
      "content f1 = content f" "atime f1 = Some (instant (added_date photo))"
      "mtime f1 = Some (instant (added_date photo))"
      "track (reset_file_timestamp h ?P (added_date photo) ''UTC'' ?st2) = track ?st2"
      "requests_made (reset_file_timestamp h ?P (added_date photo) ''UTC'' ?st2) = requests_made ?st2"
      "slept (reset_file_timestamp h ?P (added_date photo) ''UTC'' ?st2) = slept ?st2"
    by blast
  show ?thesis
    using assms f1
    by (auto simp add: attempt_body_def Let_def os_path_exists_def calculate_file_hash_eq
        download_No_fault os_remove_def log_def fun_upd_twist)
qed


lemma pass_replace:
  assumes "files st (dest photo) = Some f"
    and "md5 h (content f) \<noteq> md5 h (concat (stream photo))"
    and "system h \<noteq> Windows"
  shows "\<exists>st' f1. attempt_body h cfg dest photo No_fault st = Inr st'
     \<and> files st' = (files st)(dest photo \<mapsto> f1, dest photo @ ''.temp'' := None)
     \<and> content f1 = concat (stream photo)
     \<and> atime f1 = Some (instant (added_date photo))
     \<and> mtime f1 = Some (instant (added_date photo))
     \<and> track st' = Some (filename photo)
     \<and> requests_made st' = bump cfg (requests_made st)
     \<and> slept st' = slept st @ pause cfg (requests_made st)"
proof -
  let ?P = "dest photo" and ?T = "dest photo @ ''.temp''"
  let ?w = "written (files st ?T) (concat (stream photo))"
  let ?st3 = "st\<lparr>logged := logged st @ [Differs (filename photo)],
     files := ((files st)(?T := None))(?P \<mapsto> ?w)\<rparr>"
  have body: "attempt_body h cfg dest photo No_fault st = Inr (after_download h cfg photo ?P ?st3)"
    using assms
    by (simp add: attempt_body_def Let_def os_path_exists_def calculate_file_hash_eq
        download_No_fault os_rename_def log_def)
  have ex: "files ?st3 ?P = Some ?w" by (simp add: log_def)
  have w: "content ?w = concat (stream photo)"
    by (simp add: written_def split: option.splits)
  have st3: "files ?st3 = ((files st)(?T := None))(?P \<mapsto> ?w)" "slept ?st3 = slept st"
    "requests_made ?st3 = requests_made st"
    by (simp_all add: log_def)
  from after_download_eq [OF ex, of h cfg photo] w st3 show ?thesis
    unfolding body by (auto simp add: fun_upd_twist)
qed

lemma pass_fresh:
  assumes "files st (dest photo) = None"
  shows "\<exists>st' f1. attempt_body h cfg dest photo No_fault st = Inr st'
     \<and> files st' = (files st)(dest photo \<mapsto> f1)
     \<and> content f1 = concat (stream photo)
     \<and> atime f1 = Some (instant (added_date photo))
     \<and> mtime f1 = Some (instant (added_date photo))
     \<and> track st' = Some (filename photo)
     \<and> requests_made st' = bump cfg (requests_made st)
     \<and> slept st' = slept st @ pause cfg (requests_made st)"
proof -
  let ?P = "dest photo"
  let ?w = "written None (concat (stream photo))"
  let ?st1 = "st\<lparr>files := (files st)(?P \<mapsto> ?w)\<rparr>"
  have body: "attempt_body h cfg dest photo No_fault st = Inr (after_download h cfg photo ?P ?st1)"
    using assms
    by (simp add: attempt_body_def Let_def os_path_exists_def download_No_fault)
  have ex: "files ?st1 ?P = Some ?w" by simp
  have w: "content ?w = concat (stream photo)"
    by (simp add: written_def)
  from after_download_eq [OF ex, of h cfg photo] w show ?thesis
    unfolding body by auto
qed

lemma pass_windows:
  assumes "files st (dest photo) = Some f"
    and "md5 h (content f) \<noteq> md5 h (concat (stream photo))"
    and "system h = Windows"
  shows "\<exists>st' f1. attempt_body h cfg dest photo No_fault st = Inl (FileExistsError, st')
     \<and> files st' = (files st)(dest photo @ ''.temp'' \<mapsto> f1)
     \<and> content f1 = concat (stream photo)
     \<and> track st' = track st \<and> requests_made st' = requests_made st \<and> slept st' = slept st"
  using assms
  by (auto simp add: attempt_body_def Let_def os_path_exists_def calculate_file_hash_eq
        download_No_fault os_rename_def log_def written_def split: option.splits)

lemma pass_fault:
  assumes "fault \<noteq> No_fault"
  shows "\<exists>st'. attempt_body h cfg dest photo fault st = Inl (fault_exn fault, st')
     \<and> track st' = track st \<and> requests_made st' = requests_made st
     \<and> slept st' = slept st \<and> logged st' = logged st
     \<and> (\<forall>q. q \<noteq> (if files st (dest photo) = None then dest photo else dest photo @ ''.temp'')
           \<longrightarrow> files st' q = files st q)"
proof (cases "files st (dest photo)")
  case None
  from download_fault [OF assms, of h photo "dest photo" st] None show ?thesis
    by (auto simp add: attempt_body_def Let_def os_path_exists_def)
next
  case (Some f)
  from download_fault [OF assms, of h photo "dest photo @ ''.temp''" st] Some show ?thesis
    by (auto simp add: attempt_body_def Let_def os_path_exists_def calculate_file_hash_eq)
qed



lemma retry_loop_break:
  assumes "attempt < MAX_RETRIES cfg"
    and "attempt_body h cfg dest photo (faults attempt) st = Inr st'"
  shows "retry_loop h cfg dest photo faults attempt st = Inr st'"
  using assms by (subst retry_loop.simps) simp


lemma final_log [simp]: "files (log e st) = files st" "track (log e st) = track st"
  "requests_made (log e st) = requests_made st" "slept (log e st) = slept st"
  "logged (log e st) = logged st @ [e]"
  by (simp_all add: log_def)

lemma final_sleep [simp]: "files (sleep n st) = files st" "track (sleep n st) = track st"
  "requests_made (sleep n st) = requests_made st" "slept (sleep n st) = slept st @ [n]"
  "logged (sleep n st) = logged st"
  by (simp_all add: sleep_def)







text \<open>The three ways a pass can end.\<close>

lemma attempt_body_cases [case_names up_to_date written raised]:
  obtains
    (up_to_date) st' f f1 where
      "fault = No_fault"
      "files st (dest photo) = Some f"
      "md5 h (content f) = md5 h (concat (stream photo))"
      "attempt_body h cfg dest photo fault st = Inr st'"
      "files st' = (files st)(dest photo \<mapsto> f1, dest photo @ ''.temp'' := None)"
      "content f1 = content f"
      "atime f1 = Some (instant (added_date photo))"
      "mtime f1 = Some (instant (added_date photo))"
      "track st' = track st"
      "requests_made st' = requests_made st"
      "slept st' = slept st"
  | (written) st' f1 where
      "fault = No_fault"
      "\<forall>f. files st (dest photo) = Some f \<longrightarrow>
         md5 h (content f) \<noteq> md5 h (concat (stream photo)) \<and> system h \<noteq> Windows"
      "attempt_body h cfg dest photo fault st = Inr st'"
      "files st' = (if files st (dest photo) = None then (files st)(dest photo \<mapsto> f1)
                    else (files st)(dest photo \<mapsto> f1, dest photo @ ''.temp'' := None))"
      "content f1 = concat (stream photo)"
      "atime f1 = Some (instant (added_date photo))"
      "mtime f1 = Some (instant (added_date photo))"
      "track st' = Some (filename photo)"
      "requests_made st' = bump cfg (requests_made st)"
      "slept st' = slept st @ pause cfg (requests_made st)"
  | (raised) e st' where
      "attempt_body h cfg dest photo fault st = Inl (e, st')"
      "fault \<noteq> No_fault \<longrightarrow> e = fault_exn fault \<and> logged st' = logged st"
      "fault = No_fault \<longrightarrow> e = FileExistsError \<and> system h = Windows"
      "track st' = track st"
      "requests_made st' = requests_made st"
      "slept st' = slept st"
      "\<forall>q. q \<noteq> (if files st (dest photo) = None then dest photo else dest photo @ ''.temp'')
           \<longrightarrow> files st' q = files st q"
proof (cases "fault = No_fault")
  case False
  from pass_fault [OF False, of h cfg dest photo st] False raised show ?thesis by blast
next
  case nf: True
  show ?thesis
  proof (cases "files st (dest photo)")
    case None
    from pass_fresh [where dest = dest and photo = photo, OF None, of h cfg] obtain st' f1 where
      "attempt_body h cfg dest photo No_fault st = Inr st'"
      "files st' = (files st)(dest photo \<mapsto> f1)"
      "content f1 = concat (stream photo)"
      "atime f1 = Some (instant (added_date photo))"
      "mtime f1 = Some (instant (added_date photo))"
      "track st' = Some (filename photo)"
      "requests_made st' = bump cfg (requests_made st)"
      "slept st' = slept st @ pause cfg (requests_made st)"
      by blast
    with nf None show ?thesis by (intro written [of st' f1]) simp_all
  next
    case (Some f)
    show ?thesis
    proof (cases "md5 h (content f) = md5 h (concat (stream photo))")
      case eq: True
      from pass_up_to_date [where dest = dest and photo = photo, OF Some eq, of cfg]
      obtain st' f1 where
        "attempt_body h cfg dest photo No_fault st = Inr st'"
        "files st' = (files st)(dest photo \<mapsto> f1, dest photo @ ''.temp'' := None)"
        "content f1 = content f"
        "atime f1 = Some (instant (added_date photo))"
        "mtime f1 = Some (instant (added_date photo))"
        "track st' = track st" "requests_made st' = requests_made st" "slept st' = slept st"
        by blast
      with nf Some eq show ?thesis by (intro up_to_date [of f st' f1]) simp_all
    next
      case ne: False
      show ?thesis
      proof (cases "system h = Windows")
        case True
        from pass_windows [where dest = dest and photo = photo, OF Some ne True, of cfg]
        obtain st' f1 where
          "attempt_body h cfg dest photo No_fault st = Inl (FileExistsError, st')"
          "files st' = (files st)(dest photo @ ''.temp'' \<mapsto> f1)"
          "track st' = track st" "requests_made st' = requests_made st" "slept st' = slept st"
          by blast
        with nf Some True show ?thesis by (intro raised [of FileExistsError st']) simp_all
      next
        case False
        from pass_replace [where dest = dest and photo = photo, OF Some ne False, of cfg]
        obtain st' f1 where
          "attempt_body h cfg dest photo No_fault st = Inr st'"
          "files st' = (files st)(dest photo \<mapsto> f1, dest photo @ ''.temp'' := None)"
          "content f1 = concat (stream photo)"
          "atime f1 = Some (instant (added_date photo))"
          "mtime f1 = Some (instant (added_date photo))"
          "track st' = Some (filename photo)"
          "requests_made st' = bump cfg (requests_made st)"
          "slept st' = slept st @ pause cfg (requests_made st)"
          by blast
        with nf Some ne False show ?thesis by (intro written [of st' f1]) simp_all
      qed
    qed
  qed
qed






lemma sync_loop_no_skip:
  "sync_loop h cfg dest False cur photos st = process_all h cfg dest photos st"
  by (induction photos arbitrary: st) (auto split: sum.splits)

lemma sync_loop_skip_all:
  "\<forall>x \<in> set photos. filename (fst x) \<noteq> c \<Longrightarrow>
     sync_loop h cfg dest True (Some c) photos st = Inr st"
  by (induction photos) auto







section \<open>Timestamps of a file (claim C10)\<close>



section \<open>Evaluating the engine on examples\<close>

text \<open>The equations that evaluate the engine on a concrete input.\<close>

lemmas engine_defs =
  attempt_body_def after_download_def download_file_with_progress_def download_loop_eq
  calculate_file_hash_eq reset_file_timestamp_def reset_file_timestamp_try_def
  os_utime_def os_remove_def os_rename_def os_path_exists_def written_def log_def sleep_def
  save_last_downloaded_def load_last_downloaded_def exponential_backoff_def is_Exception_def
  pytz_timezone_def localize_UTC_def astimezone_def timestamp_def Let_def
  run_dest_def os_path_join_def download_directory_def defaults_def sync_def
  retry_loop.simps

lemmas example_defs =
  utc_host_def empty_state_def old_file_def naive_noon_def never_fails_def always_fails_def
  fails_six_times_def photo_a_def file_abc_def state_a_def

section \<open>An item that is already up to date (claim C1)\<close>

text \<open>
  Claim C1, as amended. When the destination of an item holds a file whose digest equals
  the digest of the content downloaded, a pass that meets no fault ends the processing of
  the item: the staged download is removed, both times of the file are set to the instant
  of the declared timestamp, the bytes of the file stay as they were, and the resume cursor
  and the counter of the rate limit keep their values. The cursor is not advanced: the
  pass leaves the loop at the \<open>break\<close> of the up-to-date branch, before
  \<open>save_last_downloaded\<close>.
\<close>

theorem C1_up_to_date:
  assumes "attempt < MAX_RETRIES cfg" and "faults attempt = No_fault"
    and "files st (dest photo) = Some f"
    and "md5 h (content f) = md5 h (concat (stream photo))"
  shows "\<exists>st' f1. retry_loop h cfg dest photo faults attempt st = Inr st'
     \<and> files st' (dest photo @ ''.temp'') = None
     \<and> files st' (dest photo) = Some f1
     \<and> content f1 = content f
     \<and> atime f1 = Some (instant (added_date photo))
     \<and> mtime f1 = Some (instant (added_date photo))
     \<and> track st' = track st
     \<and> requests_made st' = requests_made st"
proof -
  from pass_up_to_date [where dest = dest and photo = photo, OF assms(3,4), of cfg]
  obtain st' f1 where
    p: "attempt_body h cfg dest photo No_fault st = Inr st'"
      "files st' = (files st)(dest photo \<mapsto> f1, dest photo @ ''.temp'' := None)"
      "content f1 = content f"
      "atime f1 = Some (instant (added_date photo))"
      "mtime f1 = Some (instant (added_date photo))"
      "track st' = track st" "requests_made st' = requests_made st"
    by blast
  from p(1) assms(1,2) have "retry_loop h cfg dest photo faults attempt st = Inr st'"
    by (simp add: retry_loop_break)
  with p show ?thesis by simp
qed

theorem C1_up_to_date_witness:
  "0 < MAX_RETRIES defaults \<and> never_fails 0 = No_fault
   \<and> files state_a (run_dest photo_a) = Some file_abc
   \<and> md5 utc_host (content file_abc) = md5 utc_host (concat (stream photo_a))
   \<and> (\<exists>st' f1. retry_loop utc_host defaults run_dest photo_a never_fails 0 state_a = Inr st'
     \<and> files st' (run_dest photo_a @ ''.temp'') = None
     \<and> files st' (run_dest photo_a) = Some f1
     \<and> content f1 = ''abc''
     \<and> atime f1 = Some 43200000000 \<and> mtime f1 = Some 43200000000
     \<and> track st' = None \<and> requests_made st' = 0)"
proof -
  have a: "0 < MAX_RETRIES defaults" by (simp add: defaults_def)
  have b: "never_fails 0 = No_fault" by (simp add: never_fails_def)
  have c: "files state_a (run_dest photo_a) = Some file_abc"
    by (simp add: example_defs run_dest_def os_path_join_def download_directory_def)
  have d: "md5 utc_host (content file_abc) = md5 utc_host (concat (stream photo_a))"
    by (simp add: example_defs)
  from C1_up_to_date [where dest = run_dest and photo = photo_a and faults = never_fails
      and attempt = 0 and cfg = defaults and h = utc_host and st = state_a and f = file_abc,
      OF a b c d] a b c d show ?thesis
    by (simp add: instant_def) (simp add: example_defs)
qed

text \<open>
  Claim C1 as stated fails: the item \<open>a.jpg\<close> is up to date, its processing succeeds, and
  the cursor is not its name afterwards.
\<close>

theorem C1_counterexample:
  "files state_a (run_dest photo_a) = Some file_abc
   \<and> md5 utc_host (content file_abc) = md5 utc_host (concat (stream photo_a))
   \<and> \<not> isl (retry_loop utc_host defaults run_dest photo_a never_fails 0 state_a)
   \<and> track (final (retry_loop utc_host defaults run_dest photo_a never_fails 0 state_a))
       \<noteq> Some (filename photo_a)"
  by (simp add: engine_defs example_defs)

section \<open>The backoff schedule (claim C2)\<close>




lemmas example_defs2 = windows_host_def state_old_def interrupted_def

section \<open>The staging file (claim C4)\<close>

text \<open>
  Claim C4, as amended. A pass that succeeds, whether the item was found up to date, was
  replaced or was downloaded for the first time, ends the processing of the item and leaves
  no file at the staging path (the destination followed by \<open>.temp\<close>), provided that the
  destination existed when the pass began or no file was at the staging path then: a first
  download writes to the destination and never touches the staging path.
\<close>

theorem C4_no_staging_after_success:
  assumes "attempt < MAX_RETRIES cfg"
    and "attempt_body h cfg dest photo (faults attempt) st = Inr st'"
    and "files st (dest photo) = None \<longrightarrow> files st (dest photo @ ''.temp'') = None"
  shows "retry_loop h cfg dest photo faults attempt st = Inr st'
     \<and> files st' (dest photo @ ''.temp'') = None"
proof -
  have "files st' (dest photo @ ''.temp'') = None"
  proof (cases rule: attempt_body_cases [where st = st and dest = dest and photo = photo
        and h = h and cfg = cfg and fault = "faults attempt"])
    case (up_to_date st1 f f1)
    with assms(2) show ?thesis by simp
  next
    case (written st1 f1)
    with assms(2,3) show ?thesis by (cases "files st (dest photo) = None") simp_all
  next
    case (raised e st1)
    with assms(2) show ?thesis by simp
  qed
  with assms(1,2) show ?thesis by (simp add: retry_loop_break)
qed

theorem C4_no_staging_after_success_witness:
  "0 < MAX_RETRIES defaults
   \<and> attempt_body utc_host defaults run_dest photo_a (never_fails 0) state_old =
       Inr (final (attempt_body utc_host defaults run_dest photo_a (never_fails 0) state_old))
   \<and> files state_old (run_dest photo_a) \<noteq> None
   \<and> retry_loop utc_host defaults run_dest photo_a never_fails 0 state_old =
       Inr (final (attempt_body utc_host defaults run_dest photo_a (never_fails 0) state_old))
   \<and> files (final (attempt_body utc_host defaults run_dest photo_a (never_fails 0) state_old))
       (run_dest photo_a @ ''.temp'') = None"
proof -
  let ?st' = "final (attempt_body utc_host defaults run_dest photo_a (never_fails 0) state_old)"
  have a: "0 < MAX_RETRIES defaults" by (simp add: defaults_def)
  have b: "attempt_body utc_host defaults run_dest photo_a (never_fails 0) state_old = Inr ?st'"
    by (simp add: engine_defs example_defs example_defs2)
  have c: "files state_old (run_dest photo_a) \<noteq> None"
    by (simp add: engine_defs example_defs example_defs2)
  then have c': "files state_old (run_dest photo_a) = None \<longrightarrow>
      files state_old (run_dest photo_a @ ''.temp'') = None" by blast
  from C4_no_staging_after_success [where dest = run_dest and photo = photo_a
      and faults = never_fails and attempt = 0 and cfg = defaults and h = utc_host
      and st = state_old and st' = ?st', OF a b c'] a b c
  show ?thesis by simp
qed

text \<open>
  Claim C4 as stated fails for an item that exhausts its retries: every attempt on
  \<open>a.jpg\<close>, whose destination exists, fails after one chunk; the item is given up and the
  staging file stays, with the chunk in it.
\<close>

theorem C4_counterexample:
  "\<not> isl (retry_loop utc_host defaults run_dest photo_a always_fails 0 state_old)
   \<and> last (logged (final (retry_loop utc_host defaults run_dest photo_a always_fails 0 state_old)))
       = Max_retries ''a.jpg''
   \<and> map_option content
        (files (final (retry_loop utc_host defaults run_dest photo_a always_fails 0 state_old))
          (run_dest photo_a @ ''.temp'')) = Some ''ab''"
  by (simp add: engine_defs example_defs example_defs2)

section \<open>Replacing a file that differs (claim C5)\<close>

text \<open>
  Where \<open>os.rename\<close> replaces an existing destination (every platform but Windows), a pass
  that meets no fault on an item whose local digest differs from the remote one ends the
  processing of the item with the downloaded bytes at the destination and no staging file.
\<close>

lemma replace_on_posix:
  assumes "attempt < MAX_RETRIES cfg" and "faults attempt = No_fault"
    and "files st (dest photo) = Some f"
    and "md5 h (content f) \<noteq> md5 h (concat (stream photo))"
    and "system h \<noteq> Windows"
  shows "\<exists>st' f1. retry_loop h cfg dest photo faults attempt st = Inr st'
     \<and> files st' (dest photo) = Some f1
     \<and> content f1 = concat (stream photo)
     \<and> files st' (dest photo @ ''.temp'') = None
     \<and> track st' = Some (filename photo)"
proof -
  from pass_replace [where dest = dest and photo = photo, OF assms(3,4,5), of cfg]
  obtain st' f1 where
    p: "attempt_body h cfg dest photo No_fault st = Inr st'"
      "files st' = (files st)(dest photo \<mapsto> f1, dest photo @ ''.temp'' := None)"
      "content f1 = concat (stream photo)" "track st' = Some (filename photo)"
    by blast
  from p(1) assms(1,2) have "retry_loop h cfg dest photo faults attempt st = Inr st'"
    by (simp add: retry_loop_break)
  with p show ?thesis by simp
qed

text \<open>
  Claim C5 fails on Windows, where \<open>os.rename\<close> raises \<open>FileExistsError\<close> when the
  destination exists. The file \<open>a.jpg\<close> differs from the remote content and nothing fails in
  the download: each pass raises at the rename, the item is given up after \<open>MAX_RETRIES\<close>
  attempts, the file keeps its old bytes, the staging file stays and the cursor is not
  written.
\<close>

theorem C5_rename_on_windows:
  "system windows_host = Windows
   \<and> files state_old (run_dest photo_a) = Some old_file
   \<and> md5 windows_host (content old_file) \<noteq> md5 windows_host (concat (stream photo_a))
   \<and> attempt_body windows_host defaults run_dest photo_a No_fault state_old =
       Inl (FileExistsError,
         state_old\<lparr>files := (files state_old)(run_dest photo_a @ ''.temp'' \<mapsto> file_abc),
           logged := [Differs ''a.jpg'']\<rparr>)
   \<and> \<not> isl (retry_loop windows_host defaults run_dest photo_a never_fails 0 state_old)
   \<and> files (final (retry_loop windows_host defaults run_dest photo_a never_fails 0 state_old))
        (run_dest photo_a) = Some old_file
   \<and> files (final (retry_loop windows_host defaults run_dest photo_a never_fails 0 state_old))
        (run_dest photo_a @ ''.temp'') = Some file_abc
   \<and> track (final (retry_loop windows_host defaults run_dest photo_a never_fails 0 state_old))
        = None
   \<and> last (logged (final (retry_loop windows_host defaults run_dest photo_a never_fails 0
        state_old))) = Max_retries ''a.jpg''"
  by (simp add: engine_defs example_defs example_defs2)

section \<open>A user interrupt (claim C7)\<close>





lemmas example_defs3 = photo_b_def photo_sp_def state_a_done_def state_sp_def

section \<open>Resuming after the cursor (claim C3)\<close>

lemma final_case_log [simp]:
  "files (final (case r of Inl x \<Rightarrow> Inl x | Inr s \<Rightarrow> Inr (log e s))) = files (final r)"
  "track (final (case r of Inl x \<Rightarrow> Inl x | Inr s \<Rightarrow> Inr (log e s))) = track (final r)"
  by (cases r; cases "projl r"; simp)+


lemma sync_from_start:
  assumes "track st = None"
  shows "sync h cfg dest photos st =
     (case process_all h cfg dest photos
             ((log (Found (length photos)) st)\<lparr>requests_made := 0\<rparr>) of
        Inl x \<Rightarrow> Inl x
      | Inr st2 \<Rightarrow> Inr (log Complete st2))"
  using assms by (simp add: sync_def Let_def load_last_downloaded_def sync_loop_no_skip)






section \<open>An item that exhausts its retries (claim C6)\<close>




lemmas example_defs4 = file_xyz_def state_ab_def photo_bt_def listing_clash_def state_clash_def
  listing_ab_def listing_sp_def listing_fail_def state_b_done_def

section \<open>A second run (claim C8)\<close>

lemma contents_log [simp]: "contents (log e s) = contents s"
  by (rule ext) (simp add: contents_def)

lemma contents_sleep [simp]: "contents (sleep n s) = contents s"
  by (rule ext) (simp add: contents_def)





lemma final_case_log_contents [simp]:
  "contents (final (case r of Inl x \<Rightarrow> Inl x | Inr s \<Rightarrow> Inr (log e s))) = contents (final r)"
  by (rule ext) (simp add: contents_def)




section \<open>The rate limit (claim C9)\<close>

lemma bump_mod:
  assumes "c < RATE_LIMIT cfg"
  shows "bump cfg c = (c + 1) mod RATE_LIMIT cfg" and "bump cfg c < RATE_LIMIT cfg"
proof -
  show "bump cfg c = (c + 1) mod RATE_LIMIT cfg"
  proof (cases "RATE_LIMIT cfg \<le> c + 1")
    case True
    with assms have "c + 1 = RATE_LIMIT cfg" by simp
    then show ?thesis by (simp add: bump_def)
  next
    case False
    then show ?thesis by (simp add: bump_def)
  qed
  from assms show "bump cfg c < RATE_LIMIT cfg" by (simp add: bump_def)
qed

lemma pause_div:
  assumes "c < RATE_LIMIT cfg"
  shows "pause cfg c = pauses cfg (c + 1)"
proof (cases "RATE_LIMIT cfg \<le> c + 1")
  case True
  with assms have "c + 1 = RATE_LIMIT cfg" by simp
  with assms True show ?thesis by (simp add: pause_def pauses_def)
next
  case False
  then show ?thesis by (simp add: pause_def pauses_def)
qed

lemma pauses_add: "pauses cfg a @ pauses cfg b = (if 0 < TIME_WINDOW cfg
    then replicate (a div RATE_LIMIT cfg + b div RATE_LIMIT cfg) (TIME_WINDOW cfg) else [])"
  by (simp add: pauses_def replicate_add)

text \<open>A listing of items that are all new, downloaded without a fault.\<close>

lemma process_all_fresh:
  assumes "\<forall>x\<in>set photos. files st (dest (fst x)) = None \<and> snd x 0 = No_fault"
    and "distinct (map (\<lambda>x. dest (fst x)) photos)"
    and "0 < MAX_RETRIES cfg"
    and "requests_made st < RATE_LIMIT cfg"
  shows "\<exists>st'. process_all h cfg dest photos st = Inr st'
     \<and> requests_made st' = (requests_made st + length photos) mod RATE_LIMIT cfg
     \<and> slept st' = slept st @ pauses cfg (requests_made st + length photos)
     \<and> (\<forall>q. q \<notin> (\<lambda>x. dest (fst x)) ` set photos \<longrightarrow> files st' q = files st q)"
  using assms
proof (induction photos arbitrary: st)
  case Nil
  then show ?case by (simp add: pauses_def)
next
  case (Cons x photos)
  obtain photo faults where x: "x = (photo, faults)" by (cases x)
  from Cons.prems(1) x have none: "files st (dest photo) = None" and nf: "faults 0 = No_fault"
    by simp_all
  from pass_fresh [where dest = dest and photo = photo, OF none, of h cfg] obtain st1 f1 where
    p: "attempt_body h cfg dest photo No_fault st = Inr st1"
      "files st1 = (files st)(dest photo \<mapsto> f1)"
      "requests_made st1 = bump cfg (requests_made st)"
      "slept st1 = slept st @ pause cfg (requests_made st)"
    by blast
  from p(1) nf Cons.prems(3) have r: "retry_loop h cfg dest photo faults 0 st = Inr st1"
    by (simp add: retry_loop_break)
  from Cons.prems(2) x have dn: "dest photo \<notin> (\<lambda>x. dest (fst x)) ` set photos"
    and dist: "distinct (map (\<lambda>x. dest (fst x)) photos)" by simp_all
  have rest: "\<forall>y\<in>set photos. files st1 (dest (fst y)) = None \<and> snd y 0 = No_fault"
  proof
    fix y assume y: "y \<in> set photos"
    with dn have "dest (fst y) \<noteq> dest photo" by force
    with Cons.prems(1) y p(2) show "files st1 (dest (fst y)) = None \<and> snd y 0 = No_fault"
      by simp
  qed
  note c = Cons.prems(4)
  from p(3) bump_mod [OF c] have lt: "requests_made st1 < RATE_LIMIT cfg" by simp
  from Cons.IH [OF rest dist Cons.prems(3) lt] obtain st' where
    st': "process_all h cfg dest photos st1 = Inr st'"
      "requests_made st' = (requests_made st1 + length photos) mod RATE_LIMIT cfg"
      "slept st' = slept st1 @ pauses cfg (requests_made st1 + length photos)"
      "\<forall>q. q \<notin> (\<lambda>x. dest (fst x)) ` set photos \<longrightarrow> files st' q = files st1 q"
    by blast
  let ?c = "requests_made st" and ?n = "length photos" and ?R = "RATE_LIMIT cfg"
  have m: "(bump cfg ?c + ?n) mod ?R = (?c + Suc ?n) mod ?R"
    using bump_mod(1) [OF c] by (simp add: mod_add_left_eq)
  have dv: "(?c + 1) div ?R + (bump cfg ?c + ?n) div ?R = (?c + Suc ?n) div ?R"
  proof (cases "?R \<le> ?c + 1")
    case True
    with c have e: "?c + 1 = ?R" by simp
    then have "bump cfg ?c = 0" by (simp add: bump_def)
    moreover from e c have "(?c + Suc ?n) div ?R = 1 + ?n div ?R"
      by (metis Suc_eq_plus1 add_Suc_right add_Suc_shift div_add_self1 less_nat_zero_code
          plus_1_eq_Suc)
    ultimately show ?thesis using e c by simp
  next
    case False
    then have "bump cfg ?c = ?c + 1" by (simp add: bump_def)
    with False show ?thesis by simp
  qed
  have sl: "slept st' = slept st @ pauses cfg (?c + Suc ?n)"
    using st'(3) p(3,4) pause_div [OF c] dv
    by (simp add: pauses_add) (simp add: pauses_def)
  from st'(4) p(2) have fr: "\<forall>q. q \<notin> (\<lambda>x. dest (fst x)) ` set (x # photos) \<longrightarrow> files st' q = files st q"
    using x by simp
  from r st'(1) x have "process_all h cfg dest (x # photos) st = Inr st'" by simp
  with st'(2) p(3) m sl fr show ?case by simp
qed

text \<open>
  Claim C9, as amended. The counter \<open>requests_made\<close> counts the items written, downloaded
  for the first time or replaced: a pass that writes an item adds one to it, and when it
  reaches \<open>RATE_LIMIT\<close> the engine sleeps \<open>TIME_WINDOW\<close> seconds, if that is more than 0,
  and sets it back to 0. A pass that finds the item up to date leaves the counter as it is
  and does not pause, and so does a pass that fails: the counter does not depend on the
  retries. So a run without a cursor over \<open>n\<close> new items that meets no fault pauses
  \<open>n div RATE_LIMIT\<close> times, once after every \<open>RATE_LIMIT\<close> items, and not at all when
  \<open>TIME_WINDOW\<close> is 0.
\<close>

theorem C9_rate_limit:
  "(case attempt_body h cfg dest photo fault st of
      Inl (e, st') \<Rightarrow> requests_made st' = requests_made st \<and> slept st' = slept st
    | Inr st' \<Rightarrow>
        if matches h dest st photo
        then requests_made st' = requests_made st \<and> slept st' = slept st
        else requests_made st' =
               (if RATE_LIMIT cfg \<le> requests_made st + 1 then 0 else requests_made st + 1)
           \<and> slept st' = slept st @
               (if RATE_LIMIT cfg \<le> requests_made st + 1 \<and> 0 < TIME_WINDOW cfg
                then [TIME_WINDOW cfg] else []))
   \<and> ((\<forall>x\<in>set photos. files st (dest (fst x)) = None \<and> snd x 0 = No_fault)
        \<and> distinct (map (\<lambda>x. dest (fst x)) photos) \<and> track st = None
        \<and> 0 < MAX_RETRIES cfg \<and> 0 < RATE_LIMIT cfg \<longrightarrow>
       (\<exists>st'. sync h cfg dest photos st = Inr st'
          \<and> requests_made st' = length photos mod RATE_LIMIT cfg
          \<and> slept st' = slept st @
               (if 0 < TIME_WINDOW cfg
                then replicate (length photos div RATE_LIMIT cfg) (TIME_WINDOW cfg) else [])))"
proof (intro conjI impI)
  show "case attempt_body h cfg dest photo fault st of
      Inl (e, st') \<Rightarrow> requests_made st' = requests_made st \<and> slept st' = slept st
    | Inr st' \<Rightarrow>
        if matches h dest st photo
        then requests_made st' = requests_made st \<and> slept st' = slept st
        else requests_made st' =
               (if RATE_LIMIT cfg \<le> requests_made st + 1 then 0 else requests_made st + 1)
           \<and> slept st' = slept st @
               (if RATE_LIMIT cfg \<le> requests_made st + 1 \<and> 0 < TIME_WINDOW cfg
                then [TIME_WINDOW cfg] else [])"
  proof (cases rule: attempt_body_cases [where st = st and dest = dest and photo = photo
        and h = h and cfg = cfg and fault = fault])
    case (up_to_date st' f f1)
    then show ?thesis by (simp add: matches_def)
  next
    case (written st' f1)
    then have "\<not> matches h dest st photo"
      by (auto simp add: matches_def split: option.splits)
    with written show ?thesis by (simp add: bump_def pause_def)
  next
    case (raised e st')
    then show ?thesis by simp
  qed
next
  assume a: "(\<forall>x\<in>set photos. files st (dest (fst x)) = None \<and> snd x 0 = No_fault)
        \<and> distinct (map (\<lambda>x. dest (fst x)) photos) \<and> track st = None
        \<and> 0 < MAX_RETRIES cfg \<and> 0 < RATE_LIMIT cfg"
  let ?st1 = "(log (Found (length photos)) st)\<lparr>requests_made := 0\<rparr>"
  from a have 1: "\<forall>x\<in>set photos. files ?st1 (dest (fst x)) = None \<and> snd x 0 = No_fault"
    by simp
  from a have 2: "distinct (map (\<lambda>x. dest (fst x)) photos)" and 3: "0 < MAX_RETRIES cfg"
    and 4: "requests_made ?st1 < RATE_LIMIT cfg" and t: "track st = None"
    by simp_all
  from process_all_fresh [OF 1 2 3 4, of h] obtain st' where
    st': "process_all h cfg dest photos ?st1 = Inr st'"
      "requests_made st' = (requests_made ?st1 + length photos) mod RATE_LIMIT cfg"
      "slept st' = slept ?st1 @ pauses cfg (requests_made ?st1 + length photos)"
    by blast
  from st'(1) have "sync h cfg dest photos st = Inr (log Complete st')"
    unfolding sync_from_start [OF t] by simp
  with st'(2,3) show "\<exists>st'. sync h cfg dest photos st = Inr st'
          \<and> requests_made st' = length photos mod RATE_LIMIT cfg
          \<and> slept st' = slept st @
               (if 0 < TIME_WINDOW cfg
                then replicate (length photos div RATE_LIMIT cfg) (TIME_WINDOW cfg) else [])"
    by (simp add: pauses_def)
qed

theorem C9_rate_limit_witness:
  "files empty_state (run_dest photo_a) = None \<and> files empty_state (run_dest photo_b) = None
   \<and> never_fails 0 = No_fault
   \<and> distinct (map (\<lambda>x. run_dest (fst x)) listing_ab) \<and> track empty_state = None
   \<and> 0 < MAX_RETRIES throttled2 \<and> RATE_LIMIT throttled2 = 2 \<and> TIME_WINDOW throttled2 = 30
   \<and> (\<exists>st'. sync utc_host throttled2 run_dest listing_ab empty_state = Inr st'
          \<and> requests_made st' = 0 \<and> slept st' = [30])"
proof -
  have a: "files empty_state (run_dest photo_a) = None" "files empty_state (run_dest photo_b) = None"
    "track empty_state = None" "slept empty_state = []"
    by (simp_all add: empty_state_def)
  have b: "never_fails 0 = No_fault" by (simp add: never_fails_def)
  have c: "distinct (map (\<lambda>x. run_dest (fst x)) listing_ab)"
    by (simp add: listing_ab_def run_dest_def os_path_join_def download_directory_def
        photo_a_def photo_b_def)
  have d: "0 < MAX_RETRIES throttled2" "RATE_LIMIT throttled2 = 2" "TIME_WINDOW throttled2 = 30"
    by (simp_all add: throttled2_def defaults_def)
  from a b have e: "\<forall>x\<in>set listing_ab. files empty_state (run_dest (fst x)) = None
      \<and> snd x 0 = No_fault"
    by (simp add: listing_ab_def)
  have l: "length listing_ab = 2" by (simp add: listing_ab_def)
  from C9_rate_limit [where h = utc_host and cfg = throttled2 and dest = run_dest
      and photos = listing_ab and st = empty_state and photo = photo_a and fault = No_fault]
    e c a(3) d
  have "\<exists>st'. sync utc_host throttled2 run_dest listing_ab empty_state = Inr st'
          \<and> requests_made st' = length listing_ab mod RATE_LIMIT throttled2
          \<and> slept st' = slept empty_state @
               (if 0 < TIME_WINDOW throttled2
                then replicate (length listing_ab div RATE_LIMIT throttled2)
                  (TIME_WINDOW throttled2) else [])"
    by simp
  with d l a(4) have f: "\<exists>st'. sync utc_host throttled2 run_dest listing_ab empty_state = Inr st'
          \<and> requests_made st' = 0 \<and> slept st' = [30]"
    by (simp add: numeral_2_eq_2)
  from a(1,2) b c a(3) d f show ?thesis by (intro conjI)
qed

text \<open>
  Claim C9 as stated fails for items found up to date: with a limit of 2 and a window of 30
  seconds, a run that finds its two items up to date, both matching, does not pause.
\<close>

theorem C9_counterexample:
  "RATE_LIMIT throttled2 = 2 \<and> TIME_WINDOW throttled2 = 30
   \<and> matches utc_host run_dest state_ab photo_a \<and> matches utc_host run_dest state_ab photo_b
   \<and> logged (final (sync utc_host throttled2 run_dest listing_ab state_ab)) =
        [Found 2, Up_to_date ''a.jpg'', Up_to_date ''b.jpg'', Complete]
   \<and> slept (final (sync utc_host throttled2 run_dest listing_ab state_ab)) = []
   \<and> requests_made (final (sync utc_host throttled2 run_dest listing_ab state_ab)) = 0"
  by (simp add: matches_def throttled2_def engine_defs example_defs example_defs3 example_defs4)

end
